theory Spec2Isabelle
  imports Main "HOL-Library.Word"
begin

section \<open>The watch loop of the agent cache (agent/cache/watch.go)\<close>

text \<open>
  \<open>Notify\<close> validates a cache type and starts one goroutine that repeats a blocking
  fetch and pushes an \<open>UpdateEvent\<close> on a channel whenever the fetched index moved
  past the loop's own \<open>index\<close>. The goroutine talks to three things outside the file:
  the context \<open>ctx\<close>, the fetch \<open>c.getWithIndex\<close> and the channel \<open>ch\<close>. What each
  of them answers in one pass of the loop is an input of the model (an observation);
  what the goroutine does to them is recorded, in order, as a list of actions.
\<close>

subsection \<open>Data\<close>

type_synonym uint64 = "64 word"

text \<open>Go's \<open>error\<close> interface: \<open>None\<close> is \<open>nil\<close>, \<open>Some msg\<close> an error with its message.\<close>

type_synonym error = "string option"

text \<open>
  Modelled from the spec: \<open>ResultMeta\<close> is declared outside watch.go. The specification
  (section 3) gives it an unsigned \<open>Index\<close>, and line 96 assigns that field to the
  \<open>uint64\<close> variable \<open>index\<close>, so it is a \<open>uint64\<close>. The loop reads no other
  field. The record is used through its scheme, so whatever other fields it has travel
  in the extension \<open>'m\<close>.
\<close>

record ResultMeta =
  Index :: uint64

text \<open>\<open>UpdateEvent\<close>, lines 10-21; \<open>Result\<close> is an \<open>interface{}\<close>, here any type \<open>'v\<close>.\<close>

record ('v, 'm) UpdateEvent =
  CorrelationID :: string
  Result :: 'v
  Meta :: "'m ResultMeta_scheme"
  Err :: error

text \<open>
  The variables of the goroutine: \<open>index\<close> (line 66, a \<open>uint64\<close>) and \<open>failures\<close>
  (line 69, a \<open>uint\<close>, which is 32 or 64 bits wide: the width is the parameter \<open>'w\<close>).
\<close>

record (overloaded) ('w::len) vars =
  index :: uint64
  failures :: "'w word"

text \<open>
  \<open>time.Duration\<close> is an \<open>int64\<close>; \<open>wait > 0\<close> on line 107 is the signed comparison.
  \<open>backOffWait\<close> is not in watch.go: it is a parameter of the model.
\<close>

type_synonym Duration = "64 word"

subsection \<open>Observations and actions\<close>

text \<open>
  The \<open>select\<close> of lines 89-93 has two cases, the send \<open>ch <- u\<close> and the receive
  \<open>ctx.Done()\<close>. In Go it blocks until one of them can proceed. A send can proceed when
  a receiver or buffer space is there, and also when the channel is closed, where it
  proceeds by a run-time panic; the receive can proceed once the context is cancelled.
\<close>

datatype send_select =
    SendProceeds    \<comment> \<open>the consumer takes the event\<close>
  | DoneProceeds    \<comment> \<open>\<open>ctx.Done()\<close> is chosen\<close>
  | SendOnClosed    \<comment> \<open>the channel is closed: the send panics\<close>
  | NeitherReady    \<comment> \<open>nobody receives and nobody cancels: the select blocks for good\<close>

text \<open>The \<open>select\<close> of lines 108-112: the timer of \<open>time.After(wait)\<close> or \<open>ctx.Done()\<close>.\<close>

datatype sleep_select = TimerFires | DoneFirst

text \<open>
  What the surroundings answer during one pass of the loop body. \<open>c.getWithIndex\<close> is
  not in watch.go: its three results are part of the observation. They may depend on
  the index asked or on anything else; the properties below hold for all observations.
\<close>

record ('v, 'm) pass =
  ctx_err_before :: bool    \<comment> \<open>\<open>ctx.Err() != nil\<close> on line 73\<close>
  fetch_res :: 'v           \<comment> \<open>the three results of \<open>c.getWithIndex\<close>, line 78\<close>
  fetch_meta :: "'m ResultMeta_scheme"
  fetch_err :: error
  ctx_err_after :: bool     \<comment> \<open>\<open>ctx.Err() != nil\<close> on line 81\<close>
  send_sel :: send_select   \<comment> \<open>asked only when line 89 is reached\<close>
  sleep_sel :: sleep_select \<comment> \<open>asked only when line 108 is reached\<close>

text \<open>What the goroutine does, in program order.\<close>

datatype ('v, 'm) action =
    Fetch uint64                      \<comment> \<open>\<open>getWithIndex\<close> called with this \<open>minIndex\<close>\<close>
  | Offer "('v, 'm) UpdateEvent"      \<comment> \<open>the select of line 89 entered with this event\<close>
  | Deliver "('v, 'm) UpdateEvent"    \<comment> \<open>the send of line 90 completed\<close>
  | Sleep Duration                    \<comment> \<open>the select of line 108 entered with this wait\<close>

text \<open>How a piece of the loop body ends: it goes on, returns, panics or never leaves.\<close>

datatype 'a flow = Next 'a | Return | Panic | Block

subsection \<open>The loop body, lines 72-117\<close>

text \<open>Lines 85-97: change detection and delivery. The result is the new \<open>index\<close>.\<close>

definition deliver ::
  "string \<Rightarrow> uint64 \<Rightarrow> 'v \<Rightarrow> 'm ResultMeta_scheme \<Rightarrow> error \<Rightarrow> send_select
     \<Rightarrow> uint64 flow \<times> ('v, 'm) action list" where
  "deliver correlationID idx res meta err sel =
     (if idx < Index meta then
        (let u = \<lparr>CorrelationID = correlationID, Result = res, Meta = meta, Err = err\<rparr> in
         case sel of
           SendProceeds \<Rightarrow> (Next (Index meta), [Offer u, Deliver u])
         | DoneProceeds \<Rightarrow> (Return, [Offer u])
         | SendOnClosed \<Rightarrow> (Panic, [Offer u])
         | NeitherReady \<Rightarrow> (Block, [Offer u]))
      else (Next idx, []))"

text \<open>Lines 99-106: the failure counter. \<open>failures++\<close> wraps at the width of \<open>uint\<close>.\<close>

definition account :: "'w::len word \<Rightarrow> 'm ResultMeta_scheme \<Rightarrow> error \<Rightarrow> 'w word" where
  "account fails meta err =
     (if err = None \<and> Index meta > 0 then 0 else fails + 1)"

text \<open>Lines 107-113: the backoff sleep.\<close>

definition backoff ::
  "('w::len word \<Rightarrow> Duration) \<Rightarrow> 'w word \<Rightarrow> sleep_select \<Rightarrow> unit flow \<times> ('v, 'm) action list" where
  "backoff backOffWait fails sel =
     (let wait = backOffWait fails in
      if 0 <s wait then
        (case sel of
           TimerFires \<Rightarrow> (Next (), [Sleep wait])
         | DoneFirst \<Rightarrow> (Return, [Sleep wait]))
      else (Next (), []))"

text \<open>Lines 114-117: the second pass always asks for blocking.\<close>

definition floor_index :: "uint64 \<Rightarrow> uint64" where
  "floor_index idx = (if idx < 1 then 1 else idx)"

text \<open>
  Sequencing: the second piece runs only when the first one goes on; a return, a panic
  or a blocked select ends the goroutine there. The actions are appended in order.
\<close>

fun seq :: "'a flow \<times> 't list \<Rightarrow> ('a \<Rightarrow> 'b flow \<times> 't list) \<Rightarrow> 'b flow \<times> 't list" where
  "seq (Next a, tr) f = (case f a of (r, tr') \<Rightarrow> (r, tr @ tr'))"
| "seq (Return, tr) f = (Return, tr)"
| "seq (Panic, tr) f = (Panic, tr)"
| "seq (Block, tr) f = (Block, tr)"

text \<open>One pass of the body of \<open>for { ... }\<close>, lines 72-117.\<close>

definition iteration ::
  "('w::len word \<Rightarrow> Duration) \<Rightarrow> string \<Rightarrow> 'w vars \<Rightarrow> ('v, 'm) pass
     \<Rightarrow> 'w vars flow \<times> ('v, 'm) action list" where
  "iteration backOffWait correlationID s p =
     (if ctx_err_before p then (Return, [])
      else
        seq (Next (), [Fetch (index s)]) (\<lambda>_.
          if ctx_err_after p then (Return, [])
          else
            seq (deliver correlationID (index s) (fetch_res p) (fetch_meta p) (fetch_err p)
                   (send_sel p)) (\<lambda>idx.
              let fails = account (failures s) (fetch_meta p) (fetch_err p) in
              seq (backoff backOffWait fails (sleep_sel p)) (\<lambda>_.
                (Next \<lparr>index = floor_index idx, failures = fails\<rparr>, [])))))"

text \<open>
  The loop \<open>for { ... }\<close> of lines 71-118, run on the observations of finitely many
  passes. \<open>Next s\<close> at the end says that the goroutine is still in the loop, with
  variables \<open>s\<close>, when the observations are used up.
\<close>

fun session ::
  "('w::len word \<Rightarrow> Duration) \<Rightarrow> string \<Rightarrow> 'w vars \<Rightarrow> ('v, 'm) pass list
     \<Rightarrow> 'w vars flow \<times> ('v, 'm) action list" where
  "session backOffWait correlationID s [] = (Next s, [])"
| "session backOffWait correlationID s (p # ps) =
     seq (iteration backOffWait correlationID s p)
       (\<lambda>s'. session backOffWait correlationID s' ps)"

text \<open>The variables when the goroutine starts: line 66 and the zero value of line 69.\<close>

definition start :: "'w::len vars" where
  "start = \<lparr>index = 0, failures = 0\<rparr>"

text \<open>
  Readings of a list of actions: the events that arrived at the consumer, the events
  offered on the channel, the indices asked of the fetch, and the waits slept.
\<close>

fun delivered :: "('v, 'm) action list \<Rightarrow> ('v, 'm) UpdateEvent list" where
  "delivered [] = []"
| "delivered (Deliver u # tr) = u # delivered tr"
| "delivered (_ # tr) = delivered tr"

fun offered :: "('v, 'm) action list \<Rightarrow> ('v, 'm) UpdateEvent list" where
  "offered [] = []"
| "offered (Offer u # tr) = u # offered tr"
| "offered (_ # tr) = offered tr"

fun fetches :: "('v, 'm) action list \<Rightarrow> uint64 list" where
  "fetches [] = []"
| "fetches (Fetch i # tr) = i # fetches tr"
| "fetches (_ # tr) = fetches tr"

fun sleeps :: "('v, 'm) action list \<Rightarrow> Duration list" where
  "sleeps [] = []"
| "sleeps (Sleep w # tr) = w # sleeps tr"
| "sleeps (_ # tr) = sleeps tr"

text \<open>The event that line 88 builds from the results of the fetch of a pass.\<close>

abbreviation event :: "string \<Rightarrow> ('v, 'm) pass \<Rightarrow> ('v, 'm) UpdateEvent" where
  "event correlationID p \<equiv>
     \<lparr>CorrelationID = correlationID, Result = fetch_res p, Meta = fetch_meta p,
      Err = fetch_err p\<rparr>"

subsection \<open>Notify, lines 50-122\<close>

text \<open>
  Modelled from the spec: the cache, its registry entries and their types are declared
  outside watch.go. The specification (section 6) gives a lookup by type key that may
  find nothing and a descriptor that says whether it supports blocking; lines 55 and 60
  read them as the map \<open>c.types\<close>, the field \<open>tEntry.Type\<close> and the method
  \<open>SupportsBlocking()\<close>. The read lock of lines 54 and 56 guards the lookup against
  other goroutines and has no part in a model of one call.
\<close>

record cacheType =
  SupportsBlocking :: bool

record typeEntry =
  Type :: cacheType

record Cache =
  types :: "string \<rightharpoonup> typeEntry"

text \<open>
  A started goroutine: what the closure of line 68 captured, and its variables. \<open>'x\<close>
  stands for the context, \<open>'r\<close> for the request, \<open>'c\<close> for the channel.
\<close>

record (overloaded) ('x, 'r, 'c, 'w::len) goroutine =
  g_ctx :: 'x
  g_t :: string
  g_r :: 'r
  g_correlationID :: string
  g_ch :: 'c
  g_vars :: "'w vars"

text \<open>
  \<open>Notify\<close> returns its error; the \<open>go\<close> statement of line 68 adds one goroutine to the
  running ones, \<open>gs\<close>.
\<close>

definition Notify ::
  "'z Cache_scheme \<Rightarrow> 'x \<Rightarrow> string \<Rightarrow> 'r \<Rightarrow> string \<Rightarrow> 'c
     \<Rightarrow> ('x, 'r, 'c, 'w::len) goroutine list
     \<Rightarrow> error \<times> ('x, 'r, 'c, 'w) goroutine list" where
  "Notify c ctx t r correlationID ch gs =
     (case types c t of
        None \<Rightarrow> (Some (''unknown type in cache: '' @ t), gs)
      | Some tEntry \<Rightarrow>
          if \<not> SupportsBlocking (Type tEntry)
          then (Some ''watch requires the type to support blocking'', gs)
          else (None,
                gs @ [\<lparr>g_ctx = ctx, g_t = t, g_r = r, g_correlationID = correlationID,
                        g_ch = ch, g_vars = start\<rparr>]))"

text \<open>What a started goroutine does on the observations of its passes.\<close>

definition run ::
  "('w::len word \<Rightarrow> Duration) \<Rightarrow> ('x, 'r, 'c, 'w) goroutine \<Rightarrow> ('v, 'm) pass list
     \<Rightarrow> 'w vars flow \<times> ('v, 'm) action list" where
  "run backOffWait g ps = session backOffWait (g_correlationID g) (g_vars g) ps"

subsection \<open>Concrete inputs\<close>

text \<open>
  A pass in which nobody cancels, the fetch answers value \<open>v\<close> at index \<open>i\<close> without an
  error, the consumer takes the event and the timer fires.
\<close>

definition answers :: "string \<Rightarrow> uint64 \<Rightarrow> (string, unit) pass" where
  "answers v i =
     \<lparr>ctx_err_before = False, fetch_res = v, fetch_meta = \<lparr>Index = i\<rparr>, fetch_err = None,
      ctx_err_after = False, send_sel = SendProceeds, sleep_sel = TimerFires\<rparr>"

text \<open>
  A backoff policy to run the loop with: no wait without failures, one second (in
  nanoseconds) for each failure otherwise. It is an input of the examples only.
\<close>

definition second_per_failure :: "32 word \<Rightarrow> Duration" where
  "second_per_failure n = 1000000000 * ucast n"

text \<open>A registry with one type that supports blocking and one that does not.\<close>

definition registry :: Cache where
  "registry =
     \<lparr>types = [''health-services'' \<mapsto> \<lparr>Type = \<lparr>SupportsBlocking = True\<rparr>\<rparr>,
               ''static'' \<mapsto> \<lparr>Type = \<lparr>SupportsBlocking = False\<rparr>\<rparr>]\<rparr>"

section \<open>Properties\<close>

subsection \<open>Words\<close>

lemma one_le_word: "(1 \<le> (x::'a::len word)) = (x \<noteq> 0)"
proof -
  have "(1 \<le> unat x) = (0 < unat x)" by arith
  then show ?thesis by (simp add: word_le_nat_alt unat_gt_0)
qed

lemma less_word_nonzero: "(a::'a::len word) < b \<Longrightarrow> b \<noteq> 0"
  by (auto simp: word_less_nat_alt)

lemma floor_index_id: "idx \<noteq> 0 \<Longrightarrow> floor_index idx = idx"
  by (simp add: floor_index_def)

subsection \<open>The pieces of the loop body\<close>

lemma seq_alt:
  "seq m f = (case m of
       (Next a, tr) \<Rightarrow> (case f a of (r, tr') \<Rightarrow> (r, tr @ tr'))
     | (Return, tr) \<Rightarrow> (Return, tr)
     | (Panic, tr) \<Rightarrow> (Panic, tr)
     | (Block, tr) \<Rightarrow> (Block, tr))"
  by (cases "(m, f)" rule: seq.cases) auto

lemma deliver_Next:
  assumes "deliver cid idx res meta err sel = (Next idx', tr)"
  shows "(idx < Index meta \<and> sel = SendProceeds \<and> idx' = Index meta \<and>
          tr = [Offer \<lparr>CorrelationID = cid, Result = res, Meta = meta, Err = err\<rparr>,
                Deliver \<lparr>CorrelationID = cid, Result = res, Meta = meta, Err = err\<rparr>])
       \<or> (\<not> idx < Index meta \<and> idx' = idx \<and> tr = [])"
  using assms by (auto simp: deliver_def Let_def split: if_splits send_select.splits)

lemma backoff_Next:
  assumes "backoff b fails sel = (Next x, tr)"
  shows "tr = (if 0 <s b fails then [Sleep (b fails)] else [])"
  using assms by (auto simp: backoff_def Let_def split: if_splits sleep_select.splits)

lemma iteration_Next:
  assumes "iteration b cid s p = (Next s', tr)"
  shows "\<not> ctx_err_before p \<and> \<not> ctx_err_after p \<and>
    failures s' = account (failures s) (fetch_meta p) (fetch_err p) \<and>
    (\<exists>idx sent slept.
       deliver cid (index s) (fetch_res p) (fetch_meta p) (fetch_err p) (send_sel p)
         = (Next idx, sent) \<and>
       backoff b (failures s') (sleep_sel p) = (Next (), slept) \<and>
       index s' = floor_index idx \<and> tr = Fetch (index s) # sent @ slept)"
  using assms
  by (auto simp: iteration_def Let_def seq_alt split: if_splits prod.splits flow.splits)

lemma delivered_append [simp]: "delivered (xs @ ys) = delivered xs @ delivered ys"
  by (induction xs rule: delivered.induct) auto

lemma offered_append [simp]: "offered (xs @ ys) = offered xs @ offered ys"
  by (induction xs rule: offered.induct) auto

lemma fetches_append [simp]: "fetches (xs @ ys) = fetches xs @ fetches ys"
  by (induction xs rule: fetches.induct) auto

lemma sleeps_append [simp]: "sleeps (xs @ ys) = sleeps xs @ sleeps ys"
  by (induction xs rule: sleeps.induct) auto

lemmas body_defs =
  iteration_def deliver_def account_def backoff_def floor_index_def Let_def seq_alt

lemmas input_defs = answers_def second_per_failure_def start_def

subsection \<open>Change detection and delivery\<close>

text \<open>
  Claim C1. In a pass that gets past both cancellation checks, the goroutine builds an
  event and offers it on the channel exactly when \<open>index\<close> is below the fetched
  \<open>meta.Index\<close>. The event is the registration's correlation id with the three results
  of the fetch, error included. It reaches the consumer when the send case of the
  select proceeds; then \<open>index\<close> becomes \<open>meta.Index\<close>, whatever the error is, and that
  is the value the pass ends with. When \<open>meta.Index\<close> is not above \<open>index\<close>, lines
  85-97 offer nothing and leave \<open>index\<close> as it is.
\<close>

theorem change_detection_and_delivery:
  "\<not> ctx_err_before p \<Longrightarrow> \<not> ctx_err_after p \<Longrightarrow>
   offered (snd (iteration b cid s p))
     = (if index s < Index (fetch_meta p) then [event cid p] else []) \<and>
   delivered (snd (iteration b cid s p))
     = (if index s < Index (fetch_meta p) \<and> send_sel p = SendProceeds
        then [event cid p] else []) \<and>
   (index s < Index (fetch_meta p) \<longrightarrow> send_sel p = SendProceeds \<longrightarrow>
      deliver cid (index s) (fetch_res p) (fetch_meta p) (fetch_err p) (send_sel p)
        = (Next (Index (fetch_meta p)), [Offer (event cid p), Deliver (event cid p)])) \<and>
   (\<not> index s < Index (fetch_meta p) \<longrightarrow>
      deliver cid (index s) (fetch_res p) (fetch_meta p) (fetch_err p) (send_sel p)
        = (Next (index s), [])) \<and>
   (\<forall>s'. fst (iteration b cid s p) = Next s' \<longrightarrow> index s < Index (fetch_meta p) \<longrightarrow>
      index s' = Index (fetch_meta p))"
proof (intro conjI)
  assume "\<not> ctx_err_before p" "\<not> ctx_err_after p"
  then show "offered (snd (iteration b cid s p))
     = (if index s < Index (fetch_meta p) then [event cid p] else [])"
    by (simp add: body_defs split: send_select.splits sleep_select.splits)
next
  assume "\<not> ctx_err_before p" "\<not> ctx_err_after p"
  then show "delivered (snd (iteration b cid s p))
     = (if index s < Index (fetch_meta p) \<and> send_sel p = SendProceeds
        then [event cid p] else [])"
    by (simp add: body_defs split: send_select.splits sleep_select.splits)
next
  show "index s < Index (fetch_meta p) \<longrightarrow> send_sel p = SendProceeds \<longrightarrow>
      deliver cid (index s) (fetch_res p) (fetch_meta p) (fetch_err p) (send_sel p)
        = (Next (Index (fetch_meta p)), [Offer (event cid p), Deliver (event cid p)])"
    by (simp add: deliver_def Let_def)
next
  show "\<not> index s < Index (fetch_meta p) \<longrightarrow>
      deliver cid (index s) (fetch_res p) (fetch_meta p) (fetch_err p) (send_sel p)
        = (Next (index s), [])"
    by (simp add: deliver_def)
next
  show "\<forall>s'. fst (iteration b cid s p) = Next s' \<longrightarrow> index s < Index (fetch_meta p) \<longrightarrow>
      index s' = Index (fetch_meta p)"
  proof (intro allI impI)
    fix s'
    assume go: "fst (iteration b cid s p) = Next s'" and lt: "index s < Index (fetch_meta p)"
    obtain tr where "iteration b cid s p = (Next s', tr)"
      using go by (cases "iteration b cid s p") simp
    from iteration_Next [OF this] obtain idx sent where
      d: "deliver cid (index s) (fetch_res p) (fetch_meta p) (fetch_err p) (send_sel p)
            = (Next idx, sent)" and i: "index s' = floor_index idx"
      by blast
    from deliver_Next [OF d] lt have "idx = Index (fetch_meta p)" by blast
    with i lt show "index s' = Index (fetch_meta p)"
      by (simp add: floor_index_id less_word_nonzero)
  qed
qed

text \<open>
  The example of the specification, with an error added to the fetch: correlation id
  \<open>svcA\<close>, first fetch \<open>(v1, {Index: 5}, err)\<close>. The event is delivered with the
  error in it and the pass ends with \<open>index = 5\<close>.
\<close>

theorem change_detection_and_delivery_witness:
  "offered (snd (iteration second_per_failure ''svcA'' start
       ((answers ''v1'' 5)\<lparr>fetch_err := Some ''rpc error''\<rparr>)))
     = [\<lparr>CorrelationID = ''svcA'', Result = ''v1'', Meta = \<lparr>Index = 5\<rparr>,
         Err = Some ''rpc error''\<rparr>] \<and>
   delivered (snd (iteration second_per_failure ''svcA'' start
       ((answers ''v1'' 5)\<lparr>fetch_err := Some ''rpc error''\<rparr>)))
     = [\<lparr>CorrelationID = ''svcA'', Result = ''v1'', Meta = \<lparr>Index = 5\<rparr>,
         Err = Some ''rpc error''\<rparr>] \<and>
   fst (iteration second_per_failure ''svcA'' start
       ((answers ''v1'' 5)\<lparr>fetch_err := Some ''rpc error''\<rparr>))
     = Next \<lparr>index = 5, failures = 1\<rparr>"
  using change_detection_and_delivery
    [where p = "(answers ''v1'' 5)\<lparr>fetch_err := Some ''rpc error''\<rparr>"
       and s = "start :: 32 vars" and b = second_per_failure and cid = "''svcA''"]
  by (simp add: body_defs input_defs)

subsection \<open>The failure counter\<close>

lemma zero_index_passes:
  assumes "\<forall>p\<in>set ps. \<not> ctx_err_before p \<and> \<not> ctx_err_after p \<and> fetch_err p = None \<and>
             Index (fetch_meta p) = 0 \<and> sleep_sel p = TimerFires"
  shows "\<exists>s' tr. session b cid s ps = (Next s', tr) \<and>
           failures s' = failures s + of_nat (length ps) \<and> delivered tr = []"
  using assms
proof (induction ps arbitrary: s)
  case Nil
  then show ?case by simp
next
  case (Cons p ps)
  let ?s1 = "\<lparr>index = floor_index (index s), failures = failures s + 1\<rparr>"
  let ?t1 = "Fetch (index s) #
      (if 0 <s b (failures s + 1) then [Sleep (b (failures s + 1))] else [])"
  have it: "iteration b cid s p = (Next ?s1, ?t1)"
    using Cons.prems by (simp add: body_defs)
  from Cons.IH [of ?s1] Cons.prems obtain s' tr where
    r: "session b cid ?s1 ps = (Next s', tr)"
      "failures s' = failures ?s1 + of_nat (length ps)" "delivered tr = []"
    by auto
  have "session b cid s (p # ps) = (Next s', ?t1 @ tr)"
    using it r(1) by simp
  moreover have "failures s' = failures s + of_nat (length (p # ps))"
    using r(2) by simp
  moreover have "delivered (?t1 @ tr) = []"
    using r(3) by simp
  ultimately show ?case by blast
qed

text \<open>
  Claim C3. A pass that runs to its end leaves \<open>failures\<close> at 0 when the fetch had no
  error and an index above 0, and one higher (in the arithmetic of \<open>uint\<close>) otherwise;
  the backoff policy is asked with that new count, and the goroutine sleeps whenever
  the answer is positive. An index of 0 without an error is counted as a failure: over
  any number of such passes the count grows by one each time and nothing is delivered.
\<close>

theorem failure_accounting:
  "(\<forall>s' tr. iteration b cid s p = (Next s', tr) \<longrightarrow>
      failures s' = (if fetch_err p = None \<and> 0 < Index (fetch_meta p) then 0
                     else failures s + 1) \<and>
      sleeps tr = (if 0 <s b (failures s') then [b (failures s')] else [])) \<and>
   ((\<forall>q\<in>set ps. \<not> ctx_err_before q \<and> \<not> ctx_err_after q \<and> fetch_err q = None \<and>
        Index (fetch_meta q) = 0 \<and> sleep_sel q = TimerFires) \<longrightarrow>
      (\<exists>s'. fst (session b cid s ps) = Next s' \<and>
         failures s' = failures s + of_nat (length ps)) \<and>
      delivered (snd (session b cid s ps)) = [])"
proof (intro conjI allI impI)
  fix s' tr
  assume it: "iteration b cid s p = (Next s', tr)"
  from iteration_Next [OF it]
  show "failures s' = (if fetch_err p = None \<and> 0 < Index (fetch_meta p) then 0
                       else failures s + 1)"
    by (simp add: account_def)
  from iteration_Next [OF it] obtain idx sent slept where
    d: "deliver cid (index s) (fetch_res p) (fetch_meta p) (fetch_err p) (send_sel p)
          = (Next idx, sent)"
    and k: "backoff b (failures s') (sleep_sel p) = (Next (), slept)"
    and t: "tr = Fetch (index s) # sent @ slept"
    by blast
  have "sleeps sent = []"
    using deliver_Next [OF d] by auto
  then show "sleeps tr = (if 0 <s b (failures s') then [b (failures s')] else [])"
    using backoff_Next [OF k] t by simp
next
  assume "\<forall>q\<in>set ps. \<not> ctx_err_before q \<and> \<not> ctx_err_after q \<and> fetch_err q = None \<and>
        Index (fetch_meta q) = 0 \<and> sleep_sel q = TimerFires"
  from zero_index_passes [OF this, of b cid s]
  show "\<exists>s'. fst (session b cid s ps) = Next s' \<and>
         failures s' = failures s + of_nat (length ps)"
    and "delivered (snd (session b cid s ps)) = []"
    by auto
qed

text \<open>
  Three fetches in a row that answer index 0 without an error: the count is 3, the
  goroutine slept one, two and three seconds, and no event was delivered.
\<close>

theorem failure_accounting_witness:
  "fst (session second_per_failure ''svcA'' start
          [answers ''v0'' 0, answers ''v0'' 0, answers ''v0'' 0])
     = Next \<lparr>index = 1, failures = 3\<rparr> \<and>
   sleeps (snd (session second_per_failure ''svcA'' start
          [answers ''v0'' 0, answers ''v0'' 0, answers ''v0'' 0]))
     = [1000000000, 2000000000, 3000000000] \<and>
   delivered (snd (session second_per_failure ''svcA'' start
          [answers ''v0'' 0, answers ''v0'' 0, answers ''v0'' 0])) = [] \<and>
   fst (iteration second_per_failure ''svcA'' \<lparr>index = 5, failures = 3\<rparr> (answers ''v2'' 6))
     = Next \<lparr>index = 6, failures = 0\<rparr>"
  using failure_accounting
    [where ps = "[answers ''v0'' 0, answers ''v0'' 0, answers ''v0'' 0]"
       and s = "start :: 32 vars" and b = second_per_failure and cid = "''svcA''"
       and p = "answers ''v0'' 0"]
  by (simp add: body_defs input_defs word_sless_alt)


subsection \<open>The loop\<close>

lemma session_Cons:
  "session b cid s (p # ps) =
     (case iteration b cid s p of
        (Next s1, t1) \<Rightarrow> (case session b cid s1 ps of (r, t2) \<Rightarrow> (r, t1 @ t2))
      | (Return, t1) \<Rightarrow> (Return, t1)
      | (Panic, t1) \<Rightarrow> (Panic, t1)
      | (Block, t1) \<Rightarrow> (Block, t1))"
  by (simp add: seq_alt)

lemma seq_Next:
  assumes "seq m f = (Next y, tr)"
  shows "\<exists>a t1 t2. m = (Next a, t1) \<and> f a = (Next y, t2) \<and> tr = t1 @ t2"
  using assms by (auto simp: seq_alt split: prod.splits flow.splits)

lemma seq_assoc: "seq (seq m f) g = seq m (\<lambda>a. seq (f a) g)"
  by (cases m; cases "fst m") (auto simp: seq_alt split: prod.splits flow.splits)

lemma seq_unit: "seq (Next a, []) f = f a"
  by (cases "f a") simp

lemma session_append:
  "session b cid s (ps @ qs) = seq (session b cid s ps) (\<lambda>s'. session b cid s' qs)"
proof (induction ps arbitrary: s)
  case Nil
  show ?case by (simp only: append_Nil session.simps seq_unit)
next
  case (Cons p ps)
  show ?case
    by (simp only: append_Cons session.simps Cons.IH seq_assoc)
qed

lemma iteration_fetches:
  "fetches (snd (iteration b cid s p)) = (if ctx_err_before p then [] else [index s])"
  by (simp add: body_defs split: send_select.splits sleep_select.splits)

lemma iteration_delivered:
  "delivered (snd (iteration b cid s p)) =
     (if \<not> ctx_err_before p \<and> \<not> ctx_err_after p \<and> index s < Index (fetch_meta p) \<and>
         send_sel p = SendProceeds
      then [event cid p] else [])"
  by (simp add: body_defs split: send_select.splits sleep_select.splits)

lemma iteration_offered:
  "offered (snd (iteration b cid s p)) =
     (if \<not> ctx_err_before p \<and> \<not> ctx_err_after p \<and> index s < Index (fetch_meta p)
      then [event cid p] else [])"
  by (simp add: body_defs split: send_select.splits sleep_select.splits)

lemma iteration_index:
  assumes "iteration b cid s p = (Next s', tr)"
  shows "index s' = (if index s < Index (fetch_meta p) then Index (fetch_meta p)
                     else if index s < 1 then 1 else index s)"
proof -
  from iteration_Next [OF assms] obtain idx sent where
    d: "deliver cid (index s) (fetch_res p) (fetch_meta p) (fetch_err p) (send_sel p)
          = (Next idx, sent)" and i: "index s' = floor_index idx"
    by blast
  show ?thesis
  proof (cases "index s < Index (fetch_meta p)")
    case True
    with deliver_Next [OF d] have "idx = Index (fetch_meta p)" by blast
    with i True show ?thesis by (simp add: floor_index_id less_word_nonzero)
  next
    case False
    with deliver_Next [OF d] have "idx = index s" by blast
    with i False show ?thesis by (simp add: floor_index_def)
  qed
qed

lemma iteration_index_le:
  assumes "iteration b cid s p = (Next s', tr)"
  shows "index s \<le> index s'"
  using iteration_index [OF assms] by (auto split: if_splits)

lemma iteration_index_ge1:
  assumes "iteration b cid s p = (Next s', tr)"
  shows "1 \<le> index s'"
  using iteration_index [OF assms] by (auto simp: one_le_word dest: less_word_nonzero)

lemma session_index_le:
  "session b cid s ps = (Next s', tr) \<Longrightarrow> index s \<le> index s'"
proof (induction ps arbitrary: s tr)
  case Nil
  then show ?case by simp
next
  case (Cons p ps)
  from Cons.prems
  have "seq (iteration b cid s p) (\<lambda>s1. session b cid s1 ps) = (Next s', tr)"
    by simp
  from seq_Next [OF this] obtain s1 t1 t2 where
    it: "iteration b cid s p = (Next s1, t1)" and r: "session b cid s1 ps = (Next s', t2)"
    by blast
  from iteration_index_le [OF it] Cons.IH [OF r] show ?case by simp
qed

lemma fetches_from_one:
  "1 \<le> index s \<Longrightarrow> \<forall>i\<in>set (fetches (snd (session b cid s ps))). 1 \<le> i"
proof (induction ps arbitrary: s)
  case Nil
  then show ?case by simp
next
  case (Cons p ps)
  obtain r t1 where it: "iteration b cid s p = (r, t1)"
    by (cases "iteration b cid s p")
  have t1: "\<forall>i\<in>set (fetches t1). 1 \<le> i"
    using iteration_fetches [of b cid s p] it Cons.prems by (simp split: if_splits)
  show ?case
  proof (cases r)
    case (Next s1)
    obtain r2 t2 where r2: "session b cid s1 ps = (r2, t2)"
      by (cases "session b cid s1 ps")
    have "1 \<le> index s1" using iteration_index_ge1 it Next by blast
    from Cons.IH [OF this] r2 have "\<forall>i\<in>set (fetches t2). 1 \<le> i" by simp
    with t1 show ?thesis
      using it Next r2 by (auto simp: session_Cons)
  qed (use t1 it in \<open>simp_all add: session_Cons\<close>)
qed

subsection \<open>The index asked of the fetch\<close>

text \<open>
  Claim C4. \<open>index\<close> starts at 0, so the first fetch of a session asks for index 0. A
  pass that runs to its end leaves \<open>index\<close> at \<open>meta.Index\<close> when that was above it,
  and otherwise at its old value raised to 1 when it was below 1; either way it is at
  least 1. So every fetch after the first asks for an index of at least 1.
\<close>

theorem fetch_min_index:
  "index (start :: 'w::len vars) = 0 \<and>
   (\<not> ctx_err_before p \<longrightarrow>
      (\<exists>js. fetches (snd (session b cid (start :: 'w vars) (p # ps))) = 0 # js)) \<and>
   (\<forall>s' tr. iteration b cid s p = (Next s', tr) \<longrightarrow>
      index s' = (if index s < Index (fetch_meta p) then Index (fetch_meta p)
                  else if index s < 1 then 1 else index s) \<and>
      1 \<le> index s') \<and>
   (case fetches (snd (session b cid (start :: 'w vars) ps)) of
      [] \<Rightarrow> True
    | i # js \<Rightarrow> i = 0 \<and> (\<forall>j\<in>set js. 1 \<le> j))"
proof (intro conjI allI impI)
  show "index (start :: 'w vars) = 0" by (simp add: start_def)
next
  assume nb: "\<not> ctx_err_before p"
  obtain r t1 where it: "iteration b cid (start :: 'w vars) p = (r, t1)"
    by (cases "iteration b cid (start :: 'w vars) p")
  have "fetches t1 = [0]"
    using iteration_fetches [of b cid "start :: 'w vars" p] it nb by (simp add: start_def)
  then show "\<exists>js. fetches (snd (session b cid (start :: 'w vars) (p # ps))) = 0 # js"
    using it by (cases r) (auto simp: session_Cons split: prod.splits)
next
  fix s' tr
  assume it: "iteration b cid s p = (Next s', tr)"
  show "index s' = (if index s < Index (fetch_meta p) then Index (fetch_meta p)
                    else if index s < 1 then 1 else index s)"
    by (rule iteration_index [OF it])
  show "1 \<le> index s'"
    by (rule iteration_index_ge1 [OF it])
next
  show "case fetches (snd (session b cid (start :: 'w vars) ps)) of
      [] \<Rightarrow> True
    | i # js \<Rightarrow> i = 0 \<and> (\<forall>j\<in>set js. 1 \<le> j)"
  proof (cases ps)
    case Nil
    then show ?thesis by simp
  next
    case (Cons p0 qs)
    obtain r t1 where it: "iteration b cid (start :: 'w vars) p0 = (r, t1)"
      by (cases "iteration b cid (start :: 'w vars) p0")
    have f1: "fetches t1 = (if ctx_err_before p0 then [] else [0])"
      using iteration_fetches [of b cid "start :: 'w vars" p0] it by (simp add: start_def)
    have t1_nil: "ctx_err_before p0 \<Longrightarrow> t1 = [] \<and> r = Return"
      using it by (simp add: iteration_def)
    show ?thesis
    proof (cases r)
      case (Next s1)
      obtain r2 t2 where r2: "session b cid s1 qs = (r2, t2)"
        by (cases "session b cid s1 qs")
      have "1 \<le> index s1" using iteration_index_ge1 it Next by blast
      from fetches_from_one [OF this, of b cid qs] r2
      have "\<forall>j\<in>set (fetches t2). 1 \<le> j" by simp
      moreover have "\<not> ctx_err_before p0" using t1_nil Next by auto
      ultimately show ?thesis
        using Cons it Next r2 f1 by (simp add: session_Cons)
    qed (use Cons it f1 in \<open>simp_all add: session_Cons\<close>)
  qed
qed

text \<open>
  The example of the specification: after the first fetch answered index 5, the next
  fetch asks for 5; after a first answer of index 0 it asks for 1.
\<close>

theorem fetch_min_index_witness:
  "fetches (snd (session second_per_failure ''svcA'' start
             [answers ''v1'' 5, answers ''v2'' 6, answers ''v3'' 7])) = [0, 5, 6] \<and>
   fetches (snd (session second_per_failure ''svcA'' start
             [answers ''v0'' 0, answers ''v0'' 0])) = [0, 1] \<and>
   fst (iteration second_per_failure ''svcA'' start (answers ''v0'' 0))
     = Next \<lparr>index = 1, failures = 1\<rparr>"
  using fetch_min_index
    [where ps = "[answers ''v1'' 5, answers ''v2'' 6, answers ''v3'' 7]"
       and p = "answers ''v0'' 0" and s = "start :: 32 vars"
       and b = second_per_failure and cid = "''svcA''"]
  by (simp add: body_defs input_defs word_sless_alt)

subsection \<open>The index never goes back\<close>

text \<open>
  Claim C9. Whatever the fetches answer, \<open>index\<close> never decreases: not over one pass
  and not between any two points of a session. A fetched \<open>meta.Index\<close> at or below
  \<open>index\<close> is ignored by lines 85-97 (nothing is offered, nothing is delivered,
  \<open>index\<close> stays), and the pass ends with the old \<open>index\<close>, raised to 1 only by the
  floor of lines 115-117.
\<close>

theorem index_never_decreases:
  "(\<forall>s' tr. iteration b cid s p = (Next s', tr) \<longrightarrow> index s \<le> index s') \<and>
   (\<forall>s1 t1 s2 t2. session b cid s ps = (Next s1, t1) \<longrightarrow>
      session b cid s (ps @ qs) = (Next s2, t2) \<longrightarrow>
      index s \<le> index s1 \<and> index s1 \<le> index s2) \<and>
   (Index (fetch_meta p) \<le> index s \<longrightarrow>
      offered (snd (iteration b cid s p)) = [] \<and>
      delivered (snd (iteration b cid s p)) = [] \<and>
      deliver cid (index s) (fetch_res p) (fetch_meta p) (fetch_err p) (send_sel p)
        = (Next (index s), []) \<and>
      (\<forall>s' tr. iteration b cid s p = (Next s', tr) \<longrightarrow>
         index s' = (if index s < 1 then 1 else index s)))"
proof (intro conjI allI impI)
  fix s' tr
  assume "iteration b cid s p = (Next s', tr)"
  then show "index s \<le> index s'" by (rule iteration_index_le)
next
  fix s1 t1 s2 t2
  assume a: "session b cid s ps = (Next s1, t1)"
    and c: "session b cid s (ps @ qs) = (Next s2, t2)"
  show "index s \<le> index s1" by (rule session_index_le [OF a])
  from c a have "\<exists>t. session b cid s1 qs = (Next s2, t)"
    by (auto simp: session_append split: prod.splits)
  then show "index s1 \<le> index s2" by (auto dest: session_index_le)
next
  assume le: "Index (fetch_meta p) \<le> index s"
  then have nl: "\<not> index s < Index (fetch_meta p)" by simp
  show "offered (snd (iteration b cid s p)) = []"
    using nl by (simp add: iteration_offered)
  show "delivered (snd (iteration b cid s p)) = []"
    using nl by (simp add: iteration_delivered)
  show "deliver cid (index s) (fetch_res p) (fetch_meta p) (fetch_err p) (send_sel p)
        = (Next (index s), [])"
    using nl by (simp add: deliver_def)
  fix s' tr
  assume "iteration b cid s p = (Next s', tr)"
  from iteration_index [OF this] nl
  show "index s' = (if index s < 1 then 1 else index s)" by simp
qed

text \<open>
  A backend that answers index 9 and then falls back to index 4: the second answer is
  not delivered and \<open>index\<close> stays at 9.
\<close>

theorem index_never_decreases_witness:
  "fst (session second_per_failure ''svcA'' start [answers ''v9'' 9])
     = Next \<lparr>index = 9, failures = 0\<rparr> \<and>
   session second_per_failure ''svcA'' start ([answers ''v9'' 9] @ [answers ''v4'' 4])
     = (Next \<lparr>index = 9, failures = 0\<rparr>,
        [Fetch 0,
         Offer \<lparr>CorrelationID = ''svcA'', Result = ''v9'', Meta = \<lparr>Index = 9\<rparr>, Err = None\<rparr>,
         Deliver \<lparr>CorrelationID = ''svcA'', Result = ''v9'', Meta = \<lparr>Index = 9\<rparr>, Err = None\<rparr>,
         Fetch 9]) \<and>
   delivered (snd (iteration second_per_failure ''svcA'' \<lparr>index = 9, failures = 0\<rparr>
                     (answers ''v4'' 4))) = []"
  using index_never_decreases
    [where ps = "[answers ''v9'' 9]" and qs = "[answers ''v4'' 4]"
       and p = "answers ''v4'' 4" and s = "start :: 32 vars"
       and b = second_per_failure and cid = "''svcA''"]
    index_never_decreases
    [where p = "answers ''v4'' 4" and s = "\<lparr>index = 9, failures = 0 :: 32 word\<rparr>"
       and b = second_per_failure and cid = "''svcA''"]
  by (simp add: body_defs input_defs word_sless_alt)


subsection \<open>The order of the delivered events\<close>

lemma iteration_delivered_above:
  "\<forall>u\<in>set (delivered (snd (iteration b cid s p))). index s < Index (Meta u)"
  by (simp add: iteration_delivered)

lemma iteration_delivered_below:
  assumes "iteration b cid s p = (Next s', tr)"
  shows "\<forall>u\<in>set (delivered tr). Index (Meta u) \<le> index s'"
  using iteration_delivered [of b cid s p] iteration_index [OF assms] assms
  by (auto split: if_splits)

lemma session_delivered_increasing:
  "sorted_wrt (<) (map (\<lambda>u. Index (Meta u)) (delivered (snd (session b cid s ps)))) \<and>
   (\<forall>u\<in>set (delivered (snd (session b cid s ps))). index s < Index (Meta u))"
proof (induction ps arbitrary: s)
  case Nil
  show ?case by simp
next
  case (Cons p ps)
  obtain r t1 where it: "iteration b cid s p = (r, t1)"
    by (cases "iteration b cid s p")
  have above: "\<forall>u\<in>set (delivered t1). index s < Index (Meta u)"
    using iteration_delivered_above [of b cid s p] it by simp
  have short: "sorted_wrt (<) (map (\<lambda>u. Index (Meta u)) (delivered t1))"
    using iteration_delivered [of b cid s p] it by (simp split: if_splits)
  show ?case
  proof (cases r)
    case (Next s1)
    obtain r2 t2 where r2: "session b cid s1 ps = (r2, t2)"
      by (cases "session b cid s1 ps")
    have whole: "session b cid s (p # ps) = (r2, t1 @ t2)"
      using it Next r2 by simp
    have below: "\<forall>u\<in>set (delivered t1). Index (Meta u) \<le> index s1"
      using iteration_delivered_below it Next by blast
    have le: "index s \<le> index s1"
      using iteration_index_le it Next by blast
    from Cons.IH [of s1] r2 have
      rest: "sorted_wrt (<) (map (\<lambda>u. Index (Meta u)) (delivered t2))"
      and rest_above: "\<forall>u\<in>set (delivered t2). index s1 < Index (Meta u)"
      by simp_all
    have "sorted_wrt (<) (map (\<lambda>u. Index (Meta u)) (delivered (t1 @ t2)))"
      using short rest below rest_above by (fastforce simp: sorted_wrt_append)
    moreover have "\<forall>u\<in>set (delivered (t1 @ t2)). index s < Index (Meta u)"
      using above rest_above le by auto
    ultimately show ?thesis by (simp only: whole snd_conv) 
  qed (use it above short in \<open>simp_all add: session_Cons\<close>)
qed

lemma increasing_passes:
  fixes s :: "'w::len vars"
  assumes "\<forall>p\<in>set ps. \<not> ctx_err_before p \<and> \<not> ctx_err_after p \<and> fetch_err p = None \<and>
             send_sel p = SendProceeds \<and> sleep_sel p = TimerFires"
    and "sorted_wrt (<) (map (\<lambda>p. Index (fetch_meta p)) ps)"
    and "\<forall>p\<in>set ps. index s < Index (fetch_meta p)"
    and "failures s = 0"
  shows "\<exists>s' tr. session b cid s ps = (Next s', tr) \<and> failures s' = 0 \<and>
           delivered tr = map (event cid) ps"
  using assms
proof (induction ps arbitrary: s)
  case Nil
  then show ?case by simp
next
  case (Cons p ps)
  let ?s1 = "\<lparr>index = Index (fetch_meta p), failures = 0\<rparr> :: 'w vars"
  have lt: "index s < Index (fetch_meta p)" using Cons.prems(3) by simp
  then have nz: "Index (fetch_meta p) \<noteq> 0" by (rule less_word_nonzero)
  then have pos: "0 < Index (fetch_meta p)" by (simp add: word_neq_0_conv)
  let ?t1 = "Fetch (index s) # Offer (event cid p) # Deliver (event cid p) #
      (if 0 <s b 0 then [Sleep (b 0)] else [])"
  have it: "iteration b cid s p = (Next ?s1, ?t1)"
    using Cons.prems(1) lt nz pos by (simp add: body_defs)
  have d1: "delivered ?t1 = [event cid p]" by simp
  have "\<forall>q\<in>set ps. index ?s1 < Index (fetch_meta q)"
    using Cons.prems(2) by simp
  with Cons.IH [of ?s1] Cons.prems obtain s' tr where
    r: "session b cid ?s1 ps = (Next s', tr)" "failures s' = 0"
       "delivered tr = map (event cid) ps"
    by auto
  have "session b cid s (p # ps) = (Next s', ?t1 @ tr)"
    using it r(1) by simp
  moreover have "delivered (?t1 @ tr) = map (event cid) (p # ps)"
    using d1 r(3) by simp
  ultimately show ?case using r(2) by blast
qed

text \<open>
  Claim C2, as the code has it. In every session the indices of the delivered events
  are strictly increasing, so no two of them are equal. When the fetches answer
  strictly increasing indices, all above 0, without errors, nobody cancels and the
  consumer takes each event, then after any number of passes exactly the events of
  those passes have been delivered, in order, and \<open>failures\<close> is 0.
\<close>

theorem delivery_order:
  "sorted_wrt (<) (map (\<lambda>u. Index (Meta u)) (delivered (snd (session b cid s qs)))) \<and>
   distinct (map (\<lambda>u. Index (Meta u)) (delivered (snd (session b cid s qs)))) \<and>
   ((\<forall>p\<in>set ps. \<not> ctx_err_before p \<and> \<not> ctx_err_after p \<and> fetch_err p = None \<and>
        send_sel p = SendProceeds \<and> sleep_sel p = TimerFires) \<longrightarrow>
    sorted_wrt (<) (map (\<lambda>p. Index (fetch_meta p)) ps) \<longrightarrow>
    (\<forall>p\<in>set ps. 0 < Index (fetch_meta p)) \<longrightarrow>
    (\<forall>n\<le>length ps. \<exists>s' tr.
        session b cid (start :: 'w::len vars) (take n ps) = (Next s', tr) \<and>
        failures s' = 0 \<and> delivered tr = map (event cid) (take n ps)))"
proof (intro conjI impI allI)
  show inc: "sorted_wrt (<) (map (\<lambda>u. Index (Meta u)) (delivered (snd (session b cid s qs))))"
    using session_delivered_increasing [of b cid s qs] by simp
  show "distinct (map (\<lambda>u. Index (Meta u)) (delivered (snd (session b cid s qs))))"
    using inc by (simp add: strict_sorted_iff)
next
  fix n
  assume good: "\<forall>p\<in>set ps. \<not> ctx_err_before p \<and> \<not> ctx_err_after p \<and> fetch_err p = None \<and>
        send_sel p = SendProceeds \<and> sleep_sel p = TimerFires"
    and inc: "sorted_wrt (<) (map (\<lambda>p. Index (fetch_meta p)) ps)"
    and pos: "\<forall>p\<in>set ps. 0 < Index (fetch_meta p)"
    and n: "n \<le> length ps"
  have sub: "set (take n ps) \<subseteq> set ps" by (rule set_take_subset)
  have 1: "\<forall>p\<in>set (take n ps). \<not> ctx_err_before p \<and> \<not> ctx_err_after p \<and>
             fetch_err p = None \<and> send_sel p = SendProceeds \<and> sleep_sel p = TimerFires"
    using good sub by blast
  have 2: "sorted_wrt (<) (map (\<lambda>p. Index (fetch_meta p)) (take n ps))"
    using inc by (simp add: take_map [symmetric])
  have 3: "\<forall>p\<in>set (take n ps). index (start :: 'w vars) < Index (fetch_meta p)"
    using pos sub by (auto simp: start_def)
  have 4: "failures (start :: 'w vars) = 0" by (simp add: start_def)
  from increasing_passes [OF 1 2 3 4]
  show "\<exists>s' tr. session b cid (start :: 'w vars) (take n ps) = (Next s', tr) \<and>
        failures s' = 0 \<and> delivered tr = map (event cid) (take n ps)" .
qed

text \<open>Answers at the indices 5, 6 and 9: three events, in that order, no failure.\<close>

theorem delivery_order_witness:
  "(\<exists>s' tr. session second_per_failure ''svcA'' (start :: 32 vars)
            [answers ''v1'' 5, answers ''v2'' 6, answers ''v3'' 9]
          = (Next s', tr) \<and> failures s' = 0 \<and>
          delivered tr =
            [\<lparr>CorrelationID = ''svcA'', Result = ''v1'', Meta = \<lparr>Index = 5\<rparr>, Err = None\<rparr>,
             \<lparr>CorrelationID = ''svcA'', Result = ''v2'', Meta = \<lparr>Index = 6\<rparr>, Err = None\<rparr>,
             \<lparr>CorrelationID = ''svcA'', Result = ''v3'', Meta = \<lparr>Index = 9\<rparr>, Err = None\<rparr>])"
proof -
  let ?ps = "[answers ''v1'' 5, answers ''v2'' 6, answers ''v3'' 9]"
  have good: "\<forall>p\<in>set ?ps. \<not> ctx_err_before p \<and> \<not> ctx_err_after p \<and> fetch_err p = None \<and>
        send_sel p = SendProceeds \<and> sleep_sel p = TimerFires"
    by (simp add: answers_def)
  have inc: "sorted_wrt (<) (map (\<lambda>p. Index (fetch_meta p)) ?ps)"
    by (simp add: answers_def)
  have pos: "\<forall>p\<in>set ?ps. 0 < Index (fetch_meta p)"
    by (simp add: answers_def)
  have "\<forall>n\<le>length ?ps. \<exists>s' tr.
        session second_per_failure ''svcA'' (start :: 32 vars) (take n ?ps) = (Next s', tr) \<and>
        failures s' = 0 \<and> delivered tr = map (event ''svcA'') (take n ?ps)"
    using delivery_order [where ps = ?ps and b = second_per_failure and cid = "''svcA''"]
      good inc pos by blast
  then have "\<exists>s' tr.
        session second_per_failure ''svcA'' (start :: 32 vars) (take 3 ?ps) = (Next s', tr) \<and>
        failures s' = 0 \<and> delivered tr = map (event ''svcA'') (take 3 ?ps)"
    by (rule allE [where x = 3]) simp
  then show ?thesis by (simp add: answers_def)
qed

text \<open>
  The claim as it was stated includes sequences that begin at index 0. Answers at the
  indices 0, 1 and 2 are strictly increasing and free of errors, nobody cancels and the
  consumer is ready; yet only the event of index 2 is delivered, and \<open>failures\<close> is 1
  after the first pass.
\<close>

theorem delivery_order_counterexample:
  "sorted_wrt (<) (map Index (map fetch_meta
      [answers ''v0'' 0, answers ''v1'' 1, answers ''v2'' 2])) \<and>
   map fetch_err [answers ''v0'' 0, answers ''v1'' 1, answers ''v2'' 2]
     = [None, None, None] \<and>
   session second_per_failure ''svcA'' start
      [answers ''v0'' 0, answers ''v1'' 1, answers ''v2'' 2]
     = (Next \<lparr>index = 2, failures = 0\<rparr>,
        [Fetch 0, Sleep 1000000000, Fetch 1, Fetch 1,
         Offer \<lparr>CorrelationID = ''svcA'', Result = ''v2'', Meta = \<lparr>Index = 2\<rparr>, Err = None\<rparr>,
         Deliver \<lparr>CorrelationID = ''svcA'', Result = ''v2'', Meta = \<lparr>Index = 2\<rparr>, Err = None\<rparr>])
   \<and>
   fst (session second_per_failure ''svcA'' start [answers ''v0'' 0])
     = Next \<lparr>index = 1, failures = 1\<rparr>"
  by (simp add: body_defs input_defs word_sless_alt)

subsection \<open>Index 0 is never delivered\<close>

text \<open>
  Claim C10. A pass whose fetch answers \<open>meta.Index = 0\<close> offers and delivers nothing,
  whatever the error and whatever \<open>index\<close> is, so no event of a session has index 0.
  In particular a first answer at index 0 is dropped without a trace: the goroutine
  goes on with \<open>index = 1\<close> and one failure counted.
\<close>

theorem index_zero_not_delivered:
  "(Index (fetch_meta p) = 0 \<longrightarrow>
      offered (snd (iteration b cid s p)) = [] \<and>
      delivered (snd (iteration b cid s p)) = []) \<and>
   (\<forall>u\<in>set (delivered (snd (session b cid s ps))). 0 < Index (Meta u)) \<and>
   (Index (fetch_meta p) = 0 \<longrightarrow> \<not> ctx_err_before p \<longrightarrow> \<not> ctx_err_after p \<longrightarrow>
      sleep_sel p = TimerFires \<longrightarrow>
      (\<exists>tr. iteration b cid (start :: 'w::len vars) p
               = (Next \<lparr>index = 1, failures = 1\<rparr>, tr) \<and>
             offered tr = [] \<and> delivered tr = []))"
proof (intro conjI impI)
  assume "Index (fetch_meta p) = 0"
  then show "offered (snd (iteration b cid s p)) = []"
    and "delivered (snd (iteration b cid s p)) = []"
    by (simp_all add: iteration_offered iteration_delivered)
next
  show "\<forall>u\<in>set (delivered (snd (session b cid s ps))). 0 < Index (Meta u)"
  proof
    fix u
    assume "u \<in> set (delivered (snd (session b cid s ps)))"
    with session_delivered_increasing [of b cid s ps]
    have "index s < Index (Meta u)" by blast
    then have "Index (Meta u) \<noteq> 0" by (rule less_word_nonzero)
    then show "0 < Index (Meta u)" by (simp add: word_neq_0_conv)
  qed
next
  assume "Index (fetch_meta p) = 0" "\<not> ctx_err_before p" "\<not> ctx_err_after p"
    "sleep_sel p = TimerFires"
  then show "\<exists>tr. iteration b cid (start :: 'w vars) p
               = (Next \<lparr>index = 1, failures = 1\<rparr>, tr) \<and>
             offered tr = [] \<and> delivered tr = []"
    by (simp add: body_defs start_def)
qed

text \<open>A cached value reported at index 0 on the first fetch, then again with an error.\<close>

theorem index_zero_not_delivered_witness:
  "session second_per_failure ''svcA'' start
     [answers ''cached'' 0, (answers ''cached'' 0)\<lparr>fetch_err := Some ''rpc error''\<rparr>]
     = (Next \<lparr>index = 1, failures = 2\<rparr>,
        [Fetch 0, Sleep 1000000000, Fetch 1, Sleep 2000000000])"
  using index_zero_not_delivered
    [where ps = "[answers ''cached'' 0,
                  (answers ''cached'' 0)\<lparr>fetch_err := Some ''rpc error''\<rparr>]"
       and p = "answers ''cached'' 0" and s = "start :: 32 vars"
       and b = second_per_failure and cid = "''svcA''"]
  by (simp add: body_defs input_defs word_sless_alt)


subsection \<open>Cancellation\<close>

text \<open>
  Claim C5. The goroutine looks at the context in four places: before the fetch (line
  73), after it (line 81), in the select of the send (line 91) and in the select of the
  backoff sleep (line 110). Wherever cancellation is seen, in whichever pass, the
  goroutine returns there: what it did before stays, nothing is fetched, offered or
  delivered afterwards however many more answers are waiting, and the end is a plain
  return, not a panic.
\<close>

theorem cancellation_is_silent:
  "(\<forall>s1 t1. session b cid s ps = (Next s1, t1) \<longrightarrow> fst (iteration b cid s1 p) = Return \<longrightarrow>
      session b cid s (ps @ p # qs) = (Return, t1 @ snd (iteration b cid s1 p))) \<and>
   (ctx_err_before p \<longrightarrow> iteration b cid s p = (Return, [])) \<and>
   (\<not> ctx_err_before p \<longrightarrow> ctx_err_after p \<longrightarrow>
      iteration b cid s p = (Return, [Fetch (index s)])) \<and>
   (\<not> ctx_err_before p \<longrightarrow> \<not> ctx_err_after p \<longrightarrow>
    index s < Index (fetch_meta p) \<longrightarrow> send_sel p = DoneProceeds \<longrightarrow>
      iteration b cid s p = (Return, [Fetch (index s), Offer (event cid p)])) \<and>
   (\<not> ctx_err_before p \<longrightarrow> \<not> ctx_err_after p \<longrightarrow>
    (index s < Index (fetch_meta p) \<longrightarrow> send_sel p = SendProceeds) \<longrightarrow>
    0 <s b (account (failures s) (fetch_meta p) (fetch_err p)) \<longrightarrow>
    sleep_sel p = DoneFirst \<longrightarrow>
      iteration b cid s p =
        (Return,
         Fetch (index s) #
         (if index s < Index (fetch_meta p)
          then [Offer (event cid p), Deliver (event cid p)] else []) @
         [Sleep (b (account (failures s) (fetch_meta p) (fetch_err p)))]))"
proof (intro conjI allI impI)
  fix s1 t1
  assume a: "session b cid s ps = (Next s1, t1)"
    and c: "fst (iteration b cid s1 p) = Return"
  have "session b cid s1 (p # qs) = (Return, snd (iteration b cid s1 p))"
    using c by (cases "iteration b cid s1 p") simp
  then show "session b cid s (ps @ p # qs) = (Return, t1 @ snd (iteration b cid s1 p))"
    using a by (simp add: session_append del: session.simps)
next
  assume "ctx_err_before p"
  then show "iteration b cid s p = (Return, [])"
    by (simp add: iteration_def)
next
  assume "\<not> ctx_err_before p" "ctx_err_after p"
  then show "iteration b cid s p = (Return, [Fetch (index s)])"
    by (simp add: iteration_def)
next
  assume "\<not> ctx_err_before p" "\<not> ctx_err_after p"
    "index s < Index (fetch_meta p)" "send_sel p = DoneProceeds"
  then show "iteration b cid s p = (Return, [Fetch (index s), Offer (event cid p)])"
    by (simp add: iteration_def deliver_def Let_def)
next
  assume "\<not> ctx_err_before p" "\<not> ctx_err_after p"
    "index s < Index (fetch_meta p) \<longrightarrow> send_sel p = SendProceeds"
    "0 <s b (account (failures s) (fetch_meta p) (fetch_err p))"
    "sleep_sel p = DoneFirst"
  then show "iteration b cid s p =
        (Return,
         Fetch (index s) #
         (if index s < Index (fetch_meta p)
          then [Offer (event cid p), Deliver (event cid p)] else []) @
         [Sleep (b (account (failures s) (fetch_meta p) (fetch_err p)))])"
    by (simp add: iteration_def deliver_def backoff_def Let_def)
qed

text \<open>
  One delivered event, then cancellation seen at each of the four places in the second
  pass, with a third answer waiting that is never asked for.
\<close>

theorem cancellation_is_silent_witness:
  "session second_per_failure ''svcA'' start
     ([answers ''v1'' 5] @ (answers ''v2'' 6)\<lparr>ctx_err_before := True\<rparr> # [answers ''v3'' 7])
     = (Return,
        [Fetch 0,
         Offer \<lparr>CorrelationID = ''svcA'', Result = ''v1'', Meta = \<lparr>Index = 5\<rparr>, Err = None\<rparr>,
         Deliver \<lparr>CorrelationID = ''svcA'', Result = ''v1'', Meta = \<lparr>Index = 5\<rparr>, Err = None\<rparr>])
   \<and>
   iteration second_per_failure ''svcA'' \<lparr>index = 5, failures = 0\<rparr>
     ((answers ''v2'' 6)\<lparr>ctx_err_after := True\<rparr>) = (Return, [Fetch 5])
   \<and>
   iteration second_per_failure ''svcA'' \<lparr>index = 5, failures = 0\<rparr>
     ((answers ''v2'' 6)\<lparr>send_sel := DoneProceeds\<rparr>)
     = (Return,
        [Fetch 5,
         Offer \<lparr>CorrelationID = ''svcA'', Result = ''v2'', Meta = \<lparr>Index = 6\<rparr>, Err = None\<rparr>])
   \<and>
   iteration second_per_failure ''svcA'' \<lparr>index = 5, failures = 0\<rparr>
     ((answers ''v2'' 5)\<lparr>fetch_err := Some ''rpc error'', sleep_sel := DoneFirst\<rparr>)
     = (Return, [Fetch 5, Sleep 1000000000])"
proof -
  let ?s1 = "\<lparr>index = 5, failures = 0\<rparr> :: 32 vars"
  have first: "session second_per_failure ''svcA'' (start :: 32 vars) [answers ''v1'' 5]
     = (Next ?s1,
        [Fetch 0,
         Offer \<lparr>CorrelationID = ''svcA'', Result = ''v1'', Meta = \<lparr>Index = 5\<rparr>, Err = None\<rparr>,
         Deliver \<lparr>CorrelationID = ''svcA'', Result = ''v1'', Meta = \<lparr>Index = 5\<rparr>, Err = None\<rparr>])"
    by (simp add: body_defs input_defs word_sless_alt)
  have pos: "0 <s second_per_failure
      (account (failures ?s1)
         (fetch_meta ((answers ''v2'' 5)\<lparr>fetch_err := Some ''rpc error'', sleep_sel := DoneFirst\<rparr>))
         (fetch_err ((answers ''v2'' 5)\<lparr>fetch_err := Some ''rpc error'', sleep_sel := DoneFirst\<rparr>)))"
    by (simp add: account_def input_defs word_sless_alt)
  show ?thesis
  proof (intro conjI)
    show "session second_per_failure ''svcA'' start
     ([answers ''v1'' 5] @ (answers ''v2'' 6)\<lparr>ctx_err_before := True\<rparr> # [answers ''v3'' 7])
     = (Return,
        [Fetch 0,
         Offer \<lparr>CorrelationID = ''svcA'', Result = ''v1'', Meta = \<lparr>Index = 5\<rparr>, Err = None\<rparr>,
         Deliver \<lparr>CorrelationID = ''svcA'', Result = ''v1'', Meta = \<lparr>Index = 5\<rparr>, Err = None\<rparr>])"
      using cancellation_is_silent
        [where s = "start :: 32 vars" and ps = "[answers ''v1'' 5]"
           and p = "(answers ''v2'' 6)\<lparr>ctx_err_before := True\<rparr>"
           and qs = "[answers ''v3'' 7]"
           and b = second_per_failure and cid = "''svcA''"] first
      by (simp add: answers_def iteration_def del: session.simps)
    show "iteration second_per_failure ''svcA'' ?s1
     ((answers ''v2'' 6)\<lparr>ctx_err_after := True\<rparr>) = (Return, [Fetch 5])"
      using cancellation_is_silent
        [where s = ?s1 and p = "(answers ''v2'' 6)\<lparr>ctx_err_after := True\<rparr>"
           and b = second_per_failure and cid = "''svcA''"]
      by (simp add: answers_def)
    show "iteration second_per_failure ''svcA'' ?s1
     ((answers ''v2'' 6)\<lparr>send_sel := DoneProceeds\<rparr>)
     = (Return,
        [Fetch 5,
         Offer \<lparr>CorrelationID = ''svcA'', Result = ''v2'', Meta = \<lparr>Index = 6\<rparr>, Err = None\<rparr>])"
      using cancellation_is_silent
        [where s = ?s1 and p = "(answers ''v2'' 6)\<lparr>send_sel := DoneProceeds\<rparr>"
           and b = second_per_failure and cid = "''svcA''"]
      by (simp add: answers_def)
    show "iteration second_per_failure ''svcA'' ?s1
     ((answers ''v2'' 5)\<lparr>fetch_err := Some ''rpc error'', sleep_sel := DoneFirst\<rparr>)
     = (Return, [Fetch 5, Sleep 1000000000])"
      using cancellation_is_silent
        [where s = ?s1
           and p = "(answers ''v2'' 5)\<lparr>fetch_err := Some ''rpc error'', sleep_sel := DoneFirst\<rparr>"
           and b = second_per_failure and cid = "''svcA''"] pos
      by (simp add: answers_def account_def second_per_failure_def)
  qed
qed

subsection \<open>The send on the channel\<close>

lemma fetches_from:
  "\<forall>i\<in>set (fetches (snd (session b cid s ps))). index s \<le> i"
proof (induction ps arbitrary: s)
  case Nil
  show ?case by simp
next
  case (Cons p ps)
  obtain r t1 where it: "iteration b cid s p = (r, t1)"
    by (cases "iteration b cid s p")
  have t1: "\<forall>i\<in>set (fetches t1). index s \<le> i"
    using iteration_fetches [of b cid s p] it by (simp split: if_splits)
  show ?case
  proof (cases r)
    case (Next s1)
    obtain r2 t2 where r2: "session b cid s1 ps = (r2, t2)"
      by (cases "session b cid s1 ps")
    have "index s \<le> index s1" using iteration_index_le it Next by blast
    moreover from Cons.IH [of s1] r2 have "\<forall>i\<in>set (fetches t2). index s1 \<le> i" by simp
    ultimately have "\<forall>i\<in>set (fetches t2). index s \<le> i" by auto
    with t1 show ?thesis
      using it Next r2 by (auto simp: session_Cons)
  qed (use t1 it in \<open>simp_all add: session_Cons\<close>)
qed

text \<open>
  Claim C8. Take a pass that reaches line 87 with \<open>index\<close> below the fetched
  \<open>meta.Index\<close>. The goroutine gets past the select of lines 89-93 only with the
  event delivered: there is no way on that drops it. When the consumer takes the
  event, the delivery comes right after the offer, before anything else the goroutine
  does, and every later fetch asks for at least the delivered index. When cancellation
  is chosen, the goroutine returns. When the consumer never receives and nobody
  cancels, the goroutine stays in the select: no timer gets it out, and no further fetch
  is made however many answers are waiting.
\<close>

theorem send_blocks_session:
  fixes p :: "('v, 'm) pass"
  shows
  "\<not> ctx_err_before p \<Longrightarrow> \<not> ctx_err_after p \<Longrightarrow> index s < Index (fetch_meta p) \<Longrightarrow>
   (\<forall>s' tr. iteration b cid s p = (Next s', tr) \<longrightarrow>
      delivered tr = [event cid p] \<and> index s' = Index (fetch_meta p)) \<and>
   (send_sel p = SendProceeds \<longrightarrow>
      (\<exists>rest. snd (session b cid s (p # ps))
                = Fetch (index s) # Offer (event cid p) # Deliver (event cid p) # rest \<and>
              (\<forall>i\<in>set (fetches rest). Index (fetch_meta p) \<le> i))) \<and>
   (send_sel p = DoneProceeds \<longrightarrow>
      session b cid s (p # ps) = (Return, [Fetch (index s), Offer (event cid p)])) \<and>
   (send_sel p = NeitherReady \<longrightarrow>
      session b cid s (p # ps) = (Block, [Fetch (index s), Offer (event cid p)]))"
proof (intro conjI allI impI)
  assume nb: "\<not> ctx_err_before p" and na: "\<not> ctx_err_after p"
    and lt: "index s < Index (fetch_meta p)"
  {
    fix s' tr
    assume it: "iteration b cid s p = (Next s', tr)"
    from iteration_Next [OF it] obtain idx sent where
      d: "deliver cid (index s) (fetch_res p) (fetch_meta p) (fetch_err p) (send_sel p)
            = (Next idx, sent)"
      by blast
    from deliver_Next [OF d] lt have "send_sel p = SendProceeds" by blast
    then show "delivered tr = [event cid p]"
      using iteration_delivered [of b cid s p] it nb na lt by simp
    show "index s' = Index (fetch_meta p)"
      using iteration_index [OF it] lt by simp
  }
  {
    assume sp: "send_sel p = SendProceeds"
    let ?fails = "account (failures s) (fetch_meta p) (fetch_err p)"
    obtain r slept where
      k: "(backoff b ?fails (sleep_sel p) :: unit flow \<times> ('v, 'm) action list) = (r, slept)"
      by (cases "backoff b ?fails (sleep_sel p) :: unit flow \<times> ('v, 'm) action list")
    have sl: "fetches slept = []"
      using k by (auto simp: backoff_def Let_def split: if_splits sleep_select.splits)
    have nz: "Index (fetch_meta p) \<noteq> 0" using lt by (rule less_word_nonzero)
    show "\<exists>rest. snd (session b cid s (p # ps))
                = Fetch (index s) # Offer (event cid p) # Deliver (event cid p) # rest \<and>
              (\<forall>i\<in>set (fetches rest). Index (fetch_meta p) \<le> i)"
    proof (cases r)
      case (Next u)
      let ?s1 = "\<lparr>index = Index (fetch_meta p), failures = ?fails\<rparr>"
      have it: "iteration b cid s p =
          (Next ?s1, Fetch (index s) # Offer (event cid p) # Deliver (event cid p) # slept)"
        using nb na lt sp k Next nz
        by (simp add: iteration_def deliver_def floor_index_def Let_def)
      obtain r2 t2 where r2: "session b cid ?s1 ps = (r2, t2)"
        by (cases "session b cid ?s1 ps")
      from fetches_from [of b cid ?s1 ps] r2
      have "\<forall>i\<in>set (fetches t2). Index (fetch_meta p) \<le> i" by simp
      then show ?thesis
        using it r2 sl by simp
    next
      case Return
      then show ?thesis
        using nb na lt sp k sl by (simp add: iteration_def deliver_def Let_def)
    next
      case Panic
      then show ?thesis
        using nb na lt sp k sl by (simp add: iteration_def deliver_def Let_def)
    next
      case Block
      then show ?thesis
        using nb na lt sp k sl by (simp add: iteration_def deliver_def Let_def)
    qed
  }
  {
    assume "send_sel p = DoneProceeds"
    then show "session b cid s (p # ps) = (Return, [Fetch (index s), Offer (event cid p)])"
      using nb na lt by (simp add: iteration_def deliver_def Let_def)
  }
  {
    assume "send_sel p = NeitherReady"
    then show "session b cid s (p # ps) = (Block, [Fetch (index s), Offer (event cid p)])"
      using nb na lt by (simp add: iteration_def deliver_def Let_def)
  }
qed

text \<open>
  A consumer that never receives the event of index 5: the goroutine stays at the send
  and the answers that wait are not fetched. A consumer that does receive it: the next
  fetch comes after the delivery and asks for index 5.
\<close>

theorem send_blocks_session_witness:
  "session second_per_failure ''svcA'' start
     ((answers ''v1'' 5)\<lparr>send_sel := NeitherReady\<rparr> # [answers ''v2'' 6, answers ''v3'' 7])
     = (Block,
        [Fetch 0,
         Offer \<lparr>CorrelationID = ''svcA'', Result = ''v1'', Meta = \<lparr>Index = 5\<rparr>, Err = None\<rparr>])
   \<and>
   snd (session second_per_failure ''svcA'' start (answers ''v1'' 5 # [answers ''v1'' 5]))
     = [Fetch 0,
        Offer \<lparr>CorrelationID = ''svcA'', Result = ''v1'', Meta = \<lparr>Index = 5\<rparr>, Err = None\<rparr>,
        Deliver \<lparr>CorrelationID = ''svcA'', Result = ''v1'', Meta = \<lparr>Index = 5\<rparr>, Err = None\<rparr>,
        Fetch 5]"
proof (intro conjI)
  show "session second_per_failure ''svcA'' start
     ((answers ''v1'' 5)\<lparr>send_sel := NeitherReady\<rparr> # [answers ''v2'' 6, answers ''v3'' 7])
     = (Block,
        [Fetch 0,
         Offer \<lparr>CorrelationID = ''svcA'', Result = ''v1'', Meta = \<lparr>Index = 5\<rparr>, Err = None\<rparr>])"
    using send_blocks_session
      [where s = "start :: 32 vars" and p = "(answers ''v1'' 5)\<lparr>send_sel := NeitherReady\<rparr>"
         and ps = "[answers ''v2'' 6, answers ''v3'' 7]"
         and b = second_per_failure and cid = "''svcA''"]
    by (simp add: input_defs del: session.simps)
  show "snd (session second_per_failure ''svcA'' start (answers ''v1'' 5 # [answers ''v1'' 5]))
     = [Fetch 0,
        Offer \<lparr>CorrelationID = ''svcA'', Result = ''v1'', Meta = \<lparr>Index = 5\<rparr>, Err = None\<rparr>,
        Deliver \<lparr>CorrelationID = ''svcA'', Result = ''v1'', Meta = \<lparr>Index = 5\<rparr>, Err = None\<rparr>,
        Fetch 5]"
    using send_blocks_session
      [where s = "start :: 32 vars" and p = "answers ''v1'' 5" and ps = "[answers ''v1'' 5]"
         and b = second_per_failure and cid = "''svcA''"]
    by (simp add: body_defs input_defs word_sless_alt)
qed

subsection \<open>A closed channel\<close>

text \<open>
  Claim C7 asks that a channel closed by the consumer ends the session like a
  cancellation, without a panic. The select of lines 89-93 has no case for it and the
  goroutine has no \<open>recover\<close>: with the channel closed and the context not cancelled,
  the send of line 90 is the one case that can proceed, and it panics. Here the first
  fetch answers index 5 and the channel is closed; under cancellation the same pass
  returns.
\<close>

theorem closed_channel_panics:
  "session second_per_failure ''svcA'' start
     [(answers ''v1'' 5)\<lparr>send_sel := SendOnClosed\<rparr>, answers ''v2'' 6]
     = (Panic,
        [Fetch 0,
         Offer \<lparr>CorrelationID = ''svcA'', Result = ''v1'', Meta = \<lparr>Index = 5\<rparr>, Err = None\<rparr>])
   \<and>
   session second_per_failure ''svcA'' start
     [(answers ''v1'' 5)\<lparr>send_sel := DoneProceeds\<rparr>, answers ''v2'' 6]
     = (Return,
        [Fetch 0,
         Offer \<lparr>CorrelationID = ''svcA'', Result = ''v1'', Meta = \<lparr>Index = 5\<rparr>, Err = None\<rparr>])"
  by (simp add: body_defs input_defs)

subsection \<open>Registration\<close>

text \<open>
  Claim C6. \<open>Notify\<close> returns the error \<open>unknown type in cache: t\<close> when \<open>t\<close> is not in
  the registry, and the error \<open>watch requires the type to support blocking\<close> when the
  registered type does not support blocking; in both cases no goroutine is started. In
  every other case it returns \<open>nil\<close> and starts exactly one goroutine, which runs the
  loop from \<open>index\<close> and \<open>failures\<close> at 0 with the caller's correlation id. It never
  looks at the goroutines that run already: a second call with the same arguments
  starts a second one.
\<close>

theorem Notify_validation:
  "(types c t = None \<longrightarrow>
      Notify c ctx t r cid ch gs = (Some (''unknown type in cache: '' @ t), gs)) \<and>
   (\<forall>e. types c t = Some e \<longrightarrow> \<not> SupportsBlocking (Type e) \<longrightarrow>
      Notify c ctx t r cid ch gs
        = (Some ''watch requires the type to support blocking'', gs)) \<and>
   (\<forall>e. types c t = Some e \<longrightarrow> SupportsBlocking (Type e) \<longrightarrow>
      Notify c ctx t r cid ch gs
        = (None, gs @ [\<lparr>g_ctx = ctx, g_t = t, g_r = r, g_correlationID = cid, g_ch = ch,
                         g_vars = \<lparr>index = 0, failures = 0\<rparr>\<rparr>]) \<and>
      snd (Notify c ctx t r cid ch (snd (Notify c ctx t r cid ch gs)))
        = gs @ [\<lparr>g_ctx = ctx, g_t = t, g_r = r, g_correlationID = cid, g_ch = ch,
                  g_vars = \<lparr>index = 0, failures = 0\<rparr>\<rparr>,
                \<lparr>g_ctx = ctx, g_t = t, g_r = r, g_correlationID = cid, g_ch = ch,
                  g_vars = \<lparr>index = 0, failures = 0\<rparr>\<rparr>]) \<and>
   (fst (Notify c ctx t r cid ch gs) = None \<longrightarrow>
      length (snd (Notify c ctx t r cid ch gs)) = length gs + 1 \<and>
      run b (last (snd (Notify c ctx t r cid ch gs))) ps = session b cid start ps) \<and>
   (fst (Notify c ctx t r cid ch gs) \<noteq> None \<longrightarrow> snd (Notify c ctx t r cid ch gs) = gs)"
  by (auto simp: Notify_def run_def start_def split: option.splits)

text \<open>
  A registry with a blocking and a non-blocking type: the three outcomes of \<open>Notify\<close>,
  the last one with a goroutine of the same registration running already.
\<close>

theorem Notify_validation_witness:
  "Notify registry () ''nope'' ''web'' ''svcA'' (1 :: nat)
      ([] :: (unit, string, nat, 32) goroutine list)
     = (Some ''unknown type in cache: nope'', []) \<and>
   Notify registry () ''static'' ''web'' ''svcA'' (1 :: nat)
      ([] :: (unit, string, nat, 32) goroutine list)
     = (Some ''watch requires the type to support blocking'', []) \<and>
   Notify registry () ''health-services'' ''web'' ''svcA'' (1 :: nat)
      [\<lparr>g_ctx = (), g_t = ''health-services'', g_r = ''web'', g_correlationID = ''svcA'',
        g_ch = 1, g_vars = \<lparr>index = 0, failures = 0 :: 32 word\<rparr>\<rparr>]
     = (None,
        [\<lparr>g_ctx = (), g_t = ''health-services'', g_r = ''web'', g_correlationID = ''svcA'',
          g_ch = 1, g_vars = \<lparr>index = 0, failures = 0\<rparr>\<rparr>,
         \<lparr>g_ctx = (), g_t = ''health-services'', g_r = ''web'', g_correlationID = ''svcA'',
          g_ch = 1, g_vars = \<lparr>index = 0, failures = 0\<rparr>\<rparr>])"
  using
    Notify_validation
      [where c = registry and t = "''nope''" and ctx = "()" and r = "''web''"
         and cid = "''svcA''" and ch = "1 :: nat"
         and b = second_per_failure and ps = "[] :: (string, unit) pass list"
         and gs = "[] :: (unit, string, nat, 32) goroutine list"]
    Notify_validation
      [where c = registry and t = "''static''" and ctx = "()" and r = "''web''"
         and cid = "''svcA''" and ch = "1 :: nat"
         and b = second_per_failure and ps = "[] :: (string, unit) pass list"
         and gs = "[] :: (unit, string, nat, 32) goroutine list"]
    Notify_validation
      [where c = registry and t = "''health-services''" and ctx = "()" and r = "''web''"
         and cid = "''svcA''" and ch = "1 :: nat"
         and b = second_per_failure and ps = "[] :: (string, unit) pass list"
         and gs = "[\<lparr>g_ctx = (), g_t = ''health-services'', g_r = ''web'',
                     g_correlationID = ''svcA'', g_ch = 1,
                     g_vars = \<lparr>index = 0, failures = 0 :: 32 word\<rparr>\<rparr>]"]
  by (simp add: registry_def)


end
